theory Spec2Isabelle
  imports Complex_Main "HOL-Library.Word"
begin

section \<open>PyGaze 0.4, libsound: synthesised sounds and panning\<close>

text \<open>
  A shallow embedding of \<^verbatim>\<open>libsound.py\<close> (class \<^verbatim>\<open>Sound\<close>): the branch of
  \<^verbatim>\<open>__init__\<close> that synthesises a sound (\<^verbatim>\<open>soundfile=None\<close>), the oscillator
  functions \<^verbatim>\<open>saw\<close>, \<^verbatim>\<open>square\<close>, \<^verbatim>\<open>white_noise\<close>, and \<^verbatim>\<open>pan\<close>.

  The source is Python 2: \<^verbatim>\<open>/\<close> on two integers is floor division
  (\<^verbatim>\<open>range(slen)\<close> and \<^verbatim>\<open>reshape(len(l) / 2, 2)\<close> need it to be), which is
  \<open>div\<close> on \<open>int\<close>.

  A Python float is modelled by the real number it denotes; infinities and NaN are not
  modelled. In the synthesis the operations on floats are exact (\<^verbatim>\<open>math.sin\<close> is
  \<open>sin\<close>, \<^verbatim>\<open>math.pi\<close> is \<open>pi\<close>): what is proved there is about lengths, exceptions
  and bounds. In \<^verbatim>\<open>pan\<close>, where the value stored is the truncation of a quotient of
  doubles, the division rounds to the nearest double (\<open>to_double\<close>).

  \<^verbatim>\<open>constants.SOUNDSAMPLINGFREQUENCY\<close> is defined in another module; it is the
  parameter \<open>sps\<close> of the model. The draws of \<^verbatim>\<open>random.random()\<close> are the parameter
  \<open>rnd\<close>: \<open>rnd k\<close> is the value drawn for sample \<open>k\<close> (the oscillator function is
  called once per sample).
\<close>

subsection \<open>Python values, exceptions and arithmetic\<close>

datatype pyerror = ZeroDivisionError | TypeError | ValueError | OverflowError

text \<open>
  Python 2 has two types of integers: \<^verbatim>\<open>int\<close> (\<open>IntV\<close>), which holds a C long, and
  \<^verbatim>\<open>long\<close> (\<open>LongV\<close>), which is unbounded.
\<close>

datatype pyval = IntV int | LongV int | FloatV real | StrV string

text \<open>\<^verbatim>\<open>int(x)\<close> of a float truncates towards zero.\<close>

definition py_int :: "real \<Rightarrow> int" where
  "py_int x = (if 0 \<le> x then \<lfloor>x\<rfloor> else \<lceil>x\<rceil>)"

text \<open>\<^verbatim>\<open>x % y\<close> on floats: the result has the sign of \<open>y\<close>; a zero \<open>y\<close> raises.\<close>

definition flmod :: "real \<Rightarrow> real \<Rightarrow> real" where
  "flmod x y = x - y * of_int \<lfloor>x / y\<rfloor>"

definition py_fmod :: "real \<Rightarrow> real \<Rightarrow> pyerror + real" where
  "py_fmod x y = (if y = 0 then Inl ZeroDivisionError else Inr (flmod x y))"

text \<open>
  \<^verbatim>\<open>x / y\<close> with a float operand, as the synthesis uses it (exact): a zero \<open>y\<close>
  raises.
\<close>

definition py_truediv :: "real \<Rightarrow> real \<Rightarrow> pyerror + real" where
  "py_truediv x y = (if y = 0 then Inl ZeroDivisionError else Inr (x / y))"

subsection \<open>The oscillators\<close>

datatype oscillator = Sine | Saw | Square | WhiteNoise

text \<open>
  The \<^verbatim>\<open>if osc == 'sine' ... else\<close> chain of \<^verbatim>\<open>__init__\<close>: the chosen function and
  what is printed.
\<close>

definition select_osc :: "string \<Rightarrow> oscillator \<times> string list" where
  "select_osc osc =
     (if osc = ''sine'' then (Sine, [])
      else if osc = ''saw'' then (Saw, [])
      else if osc = ''square'' then (Square, [])
      else if osc = ''whitenoise'' then (WhiteNoise, [])
      else (Sine, [''Error in libsound.Sound.__init__(): Oscillator could not be recognized; oscillator is set to 'sine'.'']))"

definition saw :: "real \<Rightarrow> real" where
  "saw phase = flmod phase pi / (0.5 * pi) - 1.0"

definition square :: "real \<Rightarrow> int" where
  "square phase = (if phase < pi then 1 else - 1)"

definition white_noise :: "(nat \<Rightarrow> real) \<Rightarrow> nat \<Rightarrow> real \<Rightarrow> real" where
  "white_noise rnd k phase = rnd k"

subsection \<open>Synthesis (\<^verbatim>\<open>Sound.__init__\<close>)\<close>

definition amp :: int where
  "amp = 32767 div 2"

text \<open>Line 99, \<^verbatim>\<open>cps = float(sps/freq)\<close>: the division comes first, the conversion after.\<close>

fun cps_of :: "int \<Rightarrow> pyval \<Rightarrow> pyerror + real" where
  "cps_of sps (IntV n) = (if n = 0 then Inl ZeroDivisionError else Inr (of_int (sps div n)))"
| "cps_of sps (LongV n) = (if n = 0 then Inl ZeroDivisionError else Inr (of_int (sps div n)))"
| "cps_of sps (FloatV x) = (if x = 0 then Inl ZeroDivisionError else Inr (of_int sps / x))"
| "cps_of sps (StrV s) = Inl TypeError"

text \<open>Line 103, \<^verbatim>\<open>p = float((i % cps)) / cps * 2 * math.pi\<close>.\<close>

definition phase_of :: "real \<Rightarrow> int \<Rightarrow> pyerror + real" where
  "phase_of cps i =
     (case py_fmod (of_int i) cps of
        Inl e \<Rightarrow> Inl e
      | Inr m \<Rightarrow>
          (case py_truediv m cps of
             Inl e \<Rightarrow> Inl e
           | Inr q \<Rightarrow> Inr (q * 2 * pi)))"

text \<open>Line 104, \<^verbatim>\<open>v = int(amp * (_func(p)))\<close>, for sample \<open>k\<close>.\<close>

definition osc_value :: "(nat \<Rightarrow> real) \<Rightarrow> oscillator \<Rightarrow> nat \<Rightarrow> real \<Rightarrow> int" where
  "osc_value rnd f k p =
     (case f of
        Sine \<Rightarrow> py_int (of_int amp * sin p)
      | Saw \<Rightarrow> py_int (of_int amp * saw p)
      | Square \<Rightarrow> amp * square p
      | WhiteNoise \<Rightarrow> py_int (of_int amp * white_noise rnd k p))"

text \<open>Lines 105-106, the attack branch.\<close>

definition attack_env :: "int \<Rightarrow> int \<Rightarrow> int \<Rightarrow> pyerror + int" where
  "attack_env v i attack =
     (if i < attack then
        (case py_truediv (of_int v * of_int i) (of_int attack) of
           Inl e \<Rightarrow> Inl e
         | Inr x \<Rightarrow> Inr (py_int x))
      else Inr v)"

text \<open>Lines 107-108, the decay branch.\<close>

definition decay_env :: "int \<Rightarrow> int \<Rightarrow> int \<Rightarrow> int \<Rightarrow> pyerror + int" where
  "decay_env v i slen decay =
     (if i > slen - decay then
        (case py_truediv (of_int v * (of_int slen - of_int i)) (of_int decay) of
           Inl e \<Rightarrow> Inl e
         | Inr x \<Rightarrow> Inr (py_int x))
      else Inr v)"

text \<open>The body of the loop, lines 103-108: the value of sample \<open>k\<close>.\<close>

definition sample :: "(nat \<Rightarrow> real) \<Rightarrow> oscillator \<Rightarrow> real \<Rightarrow> int \<Rightarrow> int \<Rightarrow> int \<Rightarrow> nat \<Rightarrow> pyerror + int" where
  "sample rnd f cps attack decay slen k =
     (case phase_of cps (int k) of
        Inl e \<Rightarrow> Inl e
      | Inr p \<Rightarrow>
          (case attack_env (osc_value rnd f k p) (int k) attack of
             Inl e \<Rightarrow> Inl e
           | Inr v \<Rightarrow> decay_env v (int k) slen decay))"

text \<open>
  The loop \<^verbatim>\<open>for i in range(slen)\<close> over the indices still to do, with the list
  \<^verbatim>\<open>l\<close> built so far; each value is appended twice. An exception ends it.
\<close>

fun synth_loop :: "(nat \<Rightarrow> real) \<Rightarrow> oscillator \<Rightarrow> real \<Rightarrow> int \<Rightarrow> int \<Rightarrow> int \<Rightarrow> nat list \<Rightarrow> int list \<Rightarrow> pyerror + int list" where
  "synth_loop rnd f cps attack decay slen [] l = Inr l"
| "synth_loop rnd f cps attack decay slen (k # ks) l =
     (case sample rnd f cps attack decay slen k of
        Inl e \<Rightarrow> Inl e
      | Inr v \<Rightarrow> synth_loop rnd f cps attack decay slen ks (l @ [v, v]))"

text \<open>Lines 93-110: the list \<^verbatim>\<open>l\<close> of interleaved amplitudes.\<close>

definition synthesize :: "int \<Rightarrow> (nat \<Rightarrow> real) \<Rightarrow> oscillator \<Rightarrow> pyval \<Rightarrow> int \<Rightarrow> int \<Rightarrow> int \<Rightarrow> pyerror + int list" where
  "synthesize sps rnd f freq len attack decay =
     (let attack' = attack * sps div 1000;
          decay' = decay * sps div 1000
      in case cps_of sps freq of
           Inl e \<Rightarrow> Inl e
         | Inr cps \<Rightarrow>
             (let slen = sps * len div 1000
              in synth_loop rnd f cps attack' decay' slen [0..<nat slen] []))"

text \<open>
  Line 112, \<^verbatim>\<open>numpy.array(l, dtype="int16").reshape(len(l) / 2, 2)\<close>: rows of two
  16-bit values; a list of odd length has no such shape.
\<close>

type_synonym stereo = "(16 word \<times> 16 word) list"

fun reshape2 :: "int list \<Rightarrow> pyerror + stereo" where
  "reshape2 [] = Inr []"
| "reshape2 [a] = Inl ValueError"
| "reshape2 (a # b # xs) =
     (case reshape2 xs of
        Inl e \<Rightarrow> Inl e
      | Inr rows \<Rightarrow> Inr ((word_of_int a, word_of_int b) # rows))"

record sound_obj =
  sound :: stereo
  printed :: "string list"

definition Sound_init :: "int \<Rightarrow> (nat \<Rightarrow> real) \<Rightarrow> string \<Rightarrow> pyval \<Rightarrow> int \<Rightarrow> int \<Rightarrow> int \<Rightarrow> pyerror + sound_obj" where
  "Sound_init sps rnd osc freq len attack decay =
     (case select_osc osc of
        (f, msgs) \<Rightarrow>
          (case synthesize sps rnd f freq len attack decay of
             Inl e \<Rightarrow> Inl e
           | Inr l \<Rightarrow>
               (case reshape2 l of
                  Inl e \<Rightarrow> Inl e
                | Inr b \<Rightarrow> Inr \<lparr>sound = b, printed = msgs\<rparr>)))"

subsection \<open>Panning (\<^verbatim>\<open>Sound.pan\<close>)\<close>

text \<open>
  A C long has 32 bits on Windows and on 32-bit systems, 64 bits elsewhere. A value of type
  \<^verbatim>\<open>int\<close> fits a C long; an integer that does not is of type \<^verbatim>\<open>long\<close>.
\<close>

datatype platform = Long32 | Long64

definition long_bits :: "platform \<Rightarrow> nat" where
  "long_bits pf = (case pf of Long32 \<Rightarrow> 32 | Long64 \<Rightarrow> 64)"

definition fits_long :: "platform \<Rightarrow> int \<Rightarrow> bool" where
  "fits_long pf n = (- (2 ^ (long_bits pf - 1)) \<le> n \<and> n < 2 ^ (long_bits pf - 1))"

text \<open>\<^verbatim>\<open>type(panning) in (int, float)\<close>.\<close>

definition is_number :: "platform \<Rightarrow> pyval \<Rightarrow> bool" where
  "is_number pf p =
     (case p of IntV n \<Rightarrow> fits_long pf n | LongV n \<Rightarrow> False | FloatV x \<Rightarrow> True | StrV s \<Rightarrow> False)"

text \<open>
  Double arithmetic rounds the exact result to the nearest double, ties to even: 53
  significant bits, and a spacing of \<open>2 powr - 1074\<close> below \<open>2 powr - 1022\<close>. A result of
  magnitude \<open>2 ^ 1024\<close> or more stands for the infinity that the operation gives.
\<close>

definition round_half_even :: "real \<Rightarrow> int" where
  "round_half_even x =
     (let f = \<lfloor>x\<rfloor>; d = x - of_int f
      in if d < 1 / 2 then f else if 1 / 2 < d then f + 1 else if even f then f else f + 1)"

definition to_double :: "real \<Rightarrow> real" where
  "to_double x =
     (if x = 0 then 0
      else let e = max \<lfloor>log 2 \<bar>x\<bar>\<rfloor> (- 1022); u = 2 powr (of_int e - 52)
           in of_int (round_half_even (x / u)) * u)"

text \<open>\<^verbatim>\<open>x / y\<close> on doubles.\<close>

definition py_floatdiv :: "real \<Rightarrow> real \<Rightarrow> pyerror + real" where
  "py_floatdiv x y = (if y = 0 then Inl ZeroDivisionError else Inr (to_double (x / y)))"

text \<open>
  \<^verbatim>\<open>abs(panning)\<close> as the operand of that division: an integer is converted to a double.
\<close>

definition py_abs :: "pyval \<Rightarrow> real" where
  "py_abs p =
     (case p of
        IntV n \<Rightarrow> to_double \<bar>of_int n\<bar>
      | LongV n \<Rightarrow> to_double \<bar>of_int n\<bar>
      | FloatV x \<Rightarrow> \<bar>x\<bar>
      | StrV s \<Rightarrow> 0)"

definition is_negative :: "pyval \<Rightarrow> bool" where
  "is_negative p =
     (case p of IntV n \<Rightarrow> n < 0 | LongV n \<Rightarrow> n < 0 | FloatV x \<Rightarrow> x < 0 | StrV s \<Rightarrow> False)"

definition is_positive :: "pyval \<Rightarrow> bool" where
  "is_positive p =
     (case p of IntV n \<Rightarrow> 0 < n | LongV n \<Rightarrow> 0 < n | FloatV x \<Rightarrow> 0 < x | StrV s \<Rightarrow> False)"

definition is_zero :: "pyval \<Rightarrow> bool" where
  "is_zero p =
     (case p of IntV n \<Rightarrow> n = 0 | LongV n \<Rightarrow> n = 0 | FloatV x \<Rightarrow> x = 0 | StrV s \<Rightarrow> False)"

text \<open>
  The buffer \<^verbatim>\<open>buf\<close> is a numpy array of 16-bit integers. Storing a Python integer
  that fits a C long keeps its low 16 bits; storing a larger one raises
  \<^verbatim>\<open>OverflowError\<close>, as \<^verbatim>\<open>int()\<close> of an infinity does.
\<close>

definition store_int16 :: "platform \<Rightarrow> int \<Rightarrow> pyerror + 16 word" where
  "store_int16 pf n = (if fits_long pf n then Inr (word_of_int n) else Inl OverflowError)"

text \<open>
  \<^verbatim>\<open>int(float(s) / abs(panning))\<close> of lines 200 and 202 for the sample \<open>s\<close> read from the
  buffer, with its store of lines 204-205.
\<close>

definition attenuate :: "platform \<Rightarrow> pyval \<Rightarrow> 16 word \<Rightarrow> pyerror + 16 word" where
  "attenuate pf panning s =
     (case py_floatdiv (of_int (sint s)) (py_abs panning) of
        Inl e \<Rightarrow> Inl e
      | Inr q \<Rightarrow> store_int16 pf (py_int q))"

text \<open>
  Lines 192-205, the body of the loop for one row \<open>(l, r)\<close>; a value that is not replaced
  is stored back as read.
\<close>

definition pan_row :: "platform \<Rightarrow> pyval \<Rightarrow> 16 word \<times> 16 word \<Rightarrow> pyerror + 16 word \<times> 16 word" where
  "pan_row pf panning row =
     (if panning = StrV ''left'' then Inr (fst row, 0)
      else if panning = StrV ''right'' then Inr (0, snd row)
      else if is_negative panning then
        (case attenuate pf panning (snd row) of
           Inl e \<Rightarrow> Inl e
         | Inr r \<Rightarrow> Inr (fst row, r))
      else if is_positive panning then
        (case attenuate pf panning (fst row) of
           Inl e \<Rightarrow> Inl e
         | Inr l \<Rightarrow> Inr (l, snd row))
      else Inr row)"

text \<open>
  The loop \<^verbatim>\<open>for i in range(len(buf))\<close>, updating \<^verbatim>\<open>buf[i]\<close>. The array is a copy
  of the samples: an exception leaves the object as it was.
\<close>

fun pan_loop :: "platform \<Rightarrow> pyval \<Rightarrow> nat list \<Rightarrow> stereo \<Rightarrow> pyerror + stereo" where
  "pan_loop pf panning [] buf = Inr buf"
| "pan_loop pf panning (i # is) buf =
     (case pan_row pf panning (buf ! i) of
        Inl e \<Rightarrow> Inl e
      | Inr row \<Rightarrow> pan_loop pf panning is (buf[i := row]))"

text \<open>
  \<^verbatim>\<open>pan\<close>: the value returned (\<open>None\<close> is Python's \<^verbatim>\<open>None\<close>, which every
  \<^verbatim>\<open>return\<close> of the method gives) and the object afterwards.
\<close>

definition pan_message :: string where
  "pan_message = ''Error in libsound.Sound.pan(): panning must be a value between 0.0 and 1.0 or either 'left' or 'right'.''"

definition pan :: "platform \<Rightarrow> sound_obj \<Rightarrow> pyval \<Rightarrow> pyerror + (stereo option \<times> sound_obj)" where
  "pan pf self panning =
     (if \<not> is_number pf panning \<and> panning \<notin> set [StrV ''left'', StrV ''right'']
      then Inr (None, self\<lparr>printed := printed self @ [pan_message]\<rparr>)
      else if is_zero panning then Inr (None, self)
      else
        (case pan_loop pf panning [0..<length (sound self)] (sound self) of
           Inl e \<Rightarrow> Inl e
         | Inr buf \<Rightarrow> Inr (None, self\<lparr>sound := buf\<rparr>)))"

subsection \<open>A random source for inputs that are evaluated\<close>

text \<open>Every draw is 0, a value \<^verbatim>\<open>random.random()\<close> can return.\<close>

definition no_draws :: "nat \<Rightarrow> real" where
  "no_draws k = 0"

section \<open>Auxiliary facts\<close>

lemma py_int_abs_le:
  fixes n :: int
  assumes "\<bar>x\<bar> \<le> of_int n"
  shows "\<bar>py_int x\<bar> \<le> n"
proof (cases "0 \<le> x")
  case True
  then have "0 \<le> \<lfloor>x\<rfloor>" by simp
  moreover have "\<lfloor>x\<rfloor> \<le> n" using assms True by linarith
  ultimately show ?thesis using True by (simp add: py_int_def)
next
  case False
  then have "\<lceil>x\<rceil> \<le> 0" by (simp add: ceiling_le_iff)
  moreover have "- n \<le> \<lceil>x\<rceil>" using assms False by linarith
  ultimately show ?thesis using False by (simp add: py_int_def)
qed

lemma flmod_range:
  assumes "0 < y"
  shows "0 \<le> flmod x y \<and> flmod x y < y"
proof -
  have a: "of_int \<lfloor>x / y\<rfloor> \<le> x / y" by simp
  have b: "x / y < of_int \<lfloor>x / y\<rfloor> + 1" by linarith
  from a assms have "of_int \<lfloor>x / y\<rfloor> * y \<le> x" by (metis pos_le_divide_eq)
  moreover from b assms have "x < (of_int \<lfloor>x / y\<rfloor> + 1) * y" by (metis pos_divide_less_eq)
  ultimately show ?thesis by (simp add: flmod_def algebra_simps)
qed

lemma saw_range: "- 1 \<le> saw p \<and> saw p < 1"
proof -
  define q where "q = flmod p pi / pi"
  have r: "0 \<le> flmod p pi \<and> flmod p pi < pi" by (rule flmod_range) simp
  have q0: "0 \<le> q" using r by (simp add: q_def)
  have q1: "q < 1" using r by (simp add: q_def pos_divide_less_eq)
  have "saw p = 2 * q - 1" by (simp add: saw_def q_def)
  then show ?thesis using q0 q1 by linarith
qed

lemma amp_value: "amp = 16383"
  by (simp add: amp_def)

lemma osc_value_bound:
  assumes "0 \<le> rnd k \<and> rnd k < 1"
  shows "\<bar>osc_value rnd f k p\<bar> \<le> 16383"
proof (cases f)
  case Sine
  have "\<bar>16383 * sin p\<bar> \<le> 16383" using abs_sin_le_one [of p] by (simp add: abs_mult)
  then have "\<bar>py_int (16383 * sin p)\<bar> \<le> 16383" using py_int_abs_le [of "16383 * sin p" 16383] by simp
  then show ?thesis using Sine by (simp add: osc_value_def amp_value)
next
  case Saw
  have "\<bar>saw p\<bar> \<le> 1" using saw_range [of p] by linarith
  then have "\<bar>16383 * saw p\<bar> \<le> 16383" by (simp add: abs_mult)
  then have "\<bar>py_int (16383 * saw p)\<bar> \<le> 16383" using py_int_abs_le [of "16383 * saw p" 16383] by simp
  then show ?thesis using Saw by (simp add: osc_value_def amp_value)
next
  case Square
  then show ?thesis by (simp add: osc_value_def amp_value square_def)
next
  case WhiteNoise
  have "\<bar>rnd k\<bar> \<le> 1" using assms by linarith
  then have "\<bar>16383 * rnd k\<bar> \<le> 16383" by (simp add: abs_mult)
  then have "\<bar>py_int (16383 * rnd k)\<bar> \<le> 16383" using py_int_abs_le [of "16383 * rnd k" 16383] by simp
  then show ?thesis using WhiteNoise by (simp add: osc_value_def amp_value white_noise_def)
qed

lemma scale_abs_le:
  fixes v :: int and a b :: real
  assumes "0 \<le> a" "a \<le> b" "0 < b"
  shows "\<bar>py_int (of_int v * a / b)\<bar> \<le> \<bar>v\<bar>"
proof -
  define c where "c = a / b"
  have c1: "c \<le> 1" using assms by (simp add: c_def)
  have c0: "0 \<le> c" using assms by (simp add: c_def)
  have "\<bar>of_int v * c\<bar> = \<bar>of_int v\<bar> * c"
    using c0 by (simp add: abs_mult)
  also have "\<dots> \<le> \<bar>of_int v\<bar>"
    using c0 c1 by (intro mult_left_le) simp_all
  finally have "\<bar>of_int v * c\<bar> \<le> of_int \<bar>v\<bar>" by simp
  then have "\<bar>py_int (of_int v * c)\<bar> \<le> \<bar>v\<bar>" by (rule py_int_abs_le)
  then show ?thesis by (simp add: c_def)
qed

lemma attack_env_Inr:
  assumes "0 \<le> i"
  shows "\<exists>v'. attack_env v i attack = Inr v' \<and> \<bar>v'\<bar> \<le> \<bar>v\<bar>"
proof (cases "i < attack")
  case True
  then have "\<bar>py_int (of_int v * of_int i / of_int attack)\<bar> \<le> \<bar>v\<bar>"
    using assms by (intro scale_abs_le) simp_all
  then show ?thesis using True assms by (simp add: attack_env_def py_truediv_def)
next
  case False
  then show ?thesis by (simp add: attack_env_def)
qed

lemma decay_env_Inr:
  assumes "i < slen"
  shows "\<exists>v'. decay_env v i slen decay = Inr v' \<and> \<bar>v'\<bar> \<le> \<bar>v\<bar>"
proof (cases "i > slen - decay")
  case True
  then have "\<bar>py_int (of_int v * (of_int slen - of_int i) / of_int decay)\<bar> \<le> \<bar>v\<bar>"
    using assms by (intro scale_abs_le) simp_all
  then show ?thesis using True assms by (simp add: decay_env_def py_truediv_def)
next
  case False
  then show ?thesis by (simp add: decay_env_def)
qed

lemma synth_loop_Inr:
  "synth_loop rnd f cps a d slen ks l = Inr l' \<Longrightarrow>
   \<exists>vs. list_all2 (\<lambda>k v. sample rnd f cps a d slen k = Inr v) ks vs \<and>
        l' = l @ concat (map (\<lambda>v. [v, v]) vs)"
proof (induction ks arbitrary: l)
  case Nil
  then show ?case by simp
next
  case (Cons k ks)
  from Cons.prems obtain v where v: "sample rnd f cps a d slen k = Inr v"
    and rest: "synth_loop rnd f cps a d slen ks (l @ [v, v]) = Inr l'"
    by (auto split: sum.splits)
  from Cons.IH [OF rest] obtain vs where
    vs: "list_all2 (\<lambda>k v. sample rnd f cps a d slen k = Inr v) ks vs"
    and l': "l' = (l @ [v, v]) @ concat (map (\<lambda>v. [v, v]) vs)"
    by blast
  have "list_all2 (\<lambda>k v. sample rnd f cps a d slen k = Inr v) (k # ks) (v # vs)"
    using v vs by simp
  moreover have "l' = l @ concat (map (\<lambda>v. [v, v]) (v # vs))"
    using l' by simp
  ultimately show ?case by blast
qed

lemma synth_loop_total:
  "\<forall>k\<in>set ks. \<exists>v. sample rnd f cps a d slen k = Inr v \<Longrightarrow>
   \<exists>l'. synth_loop rnd f cps a d slen ks l = Inr l'"
proof (induction ks arbitrary: l)
  case Nil
  then show ?case by simp
next
  case (Cons k ks)
  then obtain v where v: "sample rnd f cps a d slen k = Inr v" by auto
  from Cons have "\<exists>l'. synth_loop rnd f cps a d slen ks (l @ [v, v]) = Inr l'" by simp
  then show ?case using v by simp
qed

lemma phase_of_Inr: "cps \<noteq> 0 \<Longrightarrow> phase_of cps i = Inr (flmod (of_int i) cps / cps * 2 * pi)"
  by (simp add: phase_of_def py_fmod_def py_truediv_def)

lemma sample_Inr:
  assumes "cps \<noteq> 0" "int k < slen"
  shows "\<exists>v. sample rnd f cps a d slen k = Inr v"
proof -
  obtain p where p: "phase_of cps (int k) = Inr p" using assms(1) by (simp add: phase_of_Inr)
  obtain v where v: "attack_env (osc_value rnd f k p) (int k) a = Inr v"
    using attack_env_Inr [of "int k"] by auto
  obtain w where w: "decay_env v (int k) slen d = Inr w"
    using decay_env_Inr [OF assms(2)] by blast
  show ?thesis using p v w by (simp add: sample_def)
qed

lemma sample_bound:
  assumes "0 \<le> rnd k \<and> rnd k < 1" "int k < slen" "sample rnd f cps a d slen k = Inr w"
  shows "\<bar>w\<bar> \<le> 16383"
proof -
  from assms(3) obtain p v where p: "phase_of cps (int k) = Inr p"
    and v: "attack_env (osc_value rnd f k p) (int k) a = Inr v"
    and w: "decay_env v (int k) slen d = Inr w"
    by (auto simp: sample_def split: sum.splits)
  have "\<bar>v\<bar> \<le> \<bar>osc_value rnd f k p\<bar>"
    using attack_env_Inr [of "int k" "osc_value rnd f k p" a] v by auto
  moreover have "\<bar>w\<bar> \<le> \<bar>v\<bar>"
    using decay_env_Inr [OF assms(2), of v d] w by auto
  ultimately show ?thesis using osc_value_bound [of rnd k f p] assms(1) by linarith
qed

lemma reshape2_twice:
  "reshape2 (concat (map (\<lambda>v. [v, v]) vs)) = Inr (map (\<lambda>v. (word_of_int v, word_of_int v)) vs)"
  by (induction vs) simp_all

lemma nth_twice:
  "j < 2 * length vs \<Longrightarrow> concat (map (\<lambda>v. [v, v]) vs) ! j = vs ! (j div 2)"
proof (induction vs arbitrary: j)
  case Nil
  then show ?case by simp
next
  case (Cons v vs)
  show ?case
  proof (cases j)
    case 0
    then show ?thesis by simp
  next
    case (Suc i)
    show ?thesis
    proof (cases i)
      case 0
      then show ?thesis using Suc by simp
    next
      case (Suc j')
      with Cons.prems \<open>j = Suc i\<close> have "j' < 2 * length vs" by simp
      from Cons.IH [OF this] show ?thesis using Suc \<open>j = Suc i\<close> by simp
    qed
  qed
qed

lemma synthesize_Inr:
  assumes "synthesize sps rnd f freq len attack decay = Inr l"
  shows "\<exists>cps vs. cps_of sps freq = Inr cps \<and> length vs = nat (sps * len div 1000) \<and>
           l = concat (map (\<lambda>v. [v, v]) vs) \<and>
           (\<forall>k < length vs. sample rnd f cps (attack * sps div 1000) (decay * sps div 1000)
                               (sps * len div 1000) k = Inr (vs ! k))"
proof -
  from assms obtain cps where cps: "cps_of sps freq = Inr cps"
    and loop: "synth_loop rnd f cps (attack * sps div 1000) (decay * sps div 1000)
                 (sps * len div 1000) [0..<nat (sps * len div 1000)] [] = Inr l"
    by (auto simp: synthesize_def Let_def split: sum.splits)
  from synth_loop_Inr [OF loop] obtain vs where
    vs: "list_all2 (\<lambda>k v. sample rnd f cps (attack * sps div 1000) (decay * sps div 1000)
                           (sps * len div 1000) k = Inr v) [0..<nat (sps * len div 1000)] vs"
    and l: "l = concat (map (\<lambda>v. [v, v]) vs)"
    by auto
  have len: "length vs = nat (sps * len div 1000)"
    using list_all2_lengthD [OF vs] by simp
  have "\<forall>k < length vs. sample rnd f cps (attack * sps div 1000) (decay * sps div 1000)
                               (sps * len div 1000) k = Inr (vs ! k)"
  proof (intro allI impI)
    fix k assume k: "k < length vs"
    from list_all2_nthD2 [OF vs k] k len show
      "sample rnd f cps (attack * sps div 1000) (decay * sps div 1000) (sps * len div 1000) k = Inr (vs ! k)"
      by simp
  qed
  with cps len l show ?thesis by blast
qed

lemma synthesize_total:
  assumes "cps_of sps freq = Inr cps" "cps \<noteq> 0"
  shows "\<exists>l. synthesize sps rnd f freq len attack decay = Inr l"
proof -
  have "\<forall>k\<in>set [0..<nat (sps * len div 1000)].
          \<exists>v. sample rnd f cps (attack * sps div 1000) (decay * sps div 1000) (sps * len div 1000) k = Inr v"
    using sample_Inr [OF assms(2)] by auto
  from synth_loop_total [OF this] show ?thesis
    using assms(1) by (simp add: synthesize_def Let_def)
qed

lemma pan_loop_upt:
  assumes g: "\<And>i. i < length buf0 \<Longrightarrow> pan_row pf p (buf0 ! i) = Inr (g (buf0 ! i))"
  shows "k \<le> length buf \<Longrightarrow> length buf = length buf0 \<Longrightarrow> drop k buf = drop k buf0 \<Longrightarrow>
         pan_loop pf p [k..<length buf] buf = Inr (take k buf @ map g (drop k buf))"
proof (induction "length buf - k" arbitrary: k buf)
  case 0
  then show ?case by simp
next
  case (Suc n)
  then have k: "k < length buf" by simp
  have same: "buf ! k = buf0 ! k"
    using Suc.prems k by (metis Cons_nth_drop_Suc list.inject)
  let ?buf = "buf[k := g (buf ! k)]"
  have n: "n = length ?buf - Suc k" using Suc.hyps(2) by simp
  have d: "drop (Suc k) ?buf = drop (Suc k) buf0"
    using Suc.prems k by (metis Cons_nth_drop_Suc drop_update_cancel lessI list.inject)
  have "pan_row pf p (buf ! k) = Inr (g (buf ! k))"
    using g [of k] k Suc.prems same by simp
  then have "pan_loop pf p [k..<length buf] buf = pan_loop pf p [Suc k..<length ?buf] ?buf"
    using k by (simp add: upt_conv_Cons)
  also have "\<dots> = Inr (take (Suc k) ?buf @ map g (drop (Suc k) ?buf))"
    using Suc.hyps(1) [OF n] k Suc.prems d by simp
  also have "take (Suc k) ?buf = take k buf @ [g (buf ! k)]"
    using k by (simp add: take_Suc_conv_app_nth)
  also have "drop (Suc k) ?buf = drop (Suc k) buf"
    by simp
  finally show ?case
    using k by (simp add: Cons_nth_drop_Suc [symmetric])
qed

lemma pan_loop_map:
  assumes "\<And>row. row \<in> set buf \<Longrightarrow> pan_row pf p row = Inr (g row)"
  shows "pan_loop pf p [0..<length buf] buf = Inr (map g buf)"
  using pan_loop_upt [of buf pf p g 0 buf] assms by simp

lemma pan_row_left: "pan_row pf (StrV ''left'') row = Inr (fst row, 0)"
  by (simp add: pan_row_def)

lemma pan_row_right: "pan_row pf (StrV ''right'') row = Inr (0, snd row)"
  by (simp add: pan_row_def)

lemma fits_long_int16:
  assumes "- 2147483648 \<le> n" "n < 2147483648"
  shows "fits_long pf n"
  using assms by (cases pf) (simp_all add: fits_long_def long_bits_def)

lemma round_half_even_of_int: "round_half_even (of_int k) = k"
  by (simp add: round_half_even_def)

lemma to_double_eval:
  assumes "2 powr of_int e \<le> \<bar>x\<bar>" "\<bar>x\<bar> < 2 powr (of_int e + 1)" "- 1022 \<le> e"
  shows "to_double x = of_int (round_half_even (x / 2 powr (of_int e - 52))) * 2 powr (of_int e - 52)"
proof -
  have "0 < 2 powr real_of_int e" by simp
  with assms(1) have x0: "0 < \<bar>x\<bar>" by linarith
  then have "\<lfloor>log 2 \<bar>x\<bar>\<rfloor> = e"
    using assms(1,2) by (simp add: floor_log_eq_powr_iff)
  then show ?thesis
    using x0 assms(3) by (simp add: to_double_def Let_def max_def)
qed

lemma to_double_exact:
  assumes "2 powr of_int e \<le> \<bar>x\<bar>" "\<bar>x\<bar> < 2 powr (of_int e + 1)" "- 1022 \<le> e"
    and k: "x / 2 powr (of_int e - 52) = of_int k"
  shows "to_double x = x"
proof -
  have u: "0 < 2 powr (real_of_int e - 52)" by simp
  have "to_double x = of_int k * 2 powr (of_int e - 52)"
    using to_double_eval [OF assms(1-3)] by (simp add: k round_half_even_of_int)
  also have "\<dots> = x"
    using u k [symmetric] by simp
  finally show ?thesis .
qed

lemma to_double_0: "to_double 0 = 0"
  by (simp add: to_double_def)

lemma to_double_1: "to_double 1 = 1"
  by (rule to_double_exact [where e = 0 and k = "2 ^ 52"]) (simp_all add: powr_minus)

lemma to_double_50: "to_double 50 = 50"
  by (rule to_double_exact [where e = 5 and k = "50 * 2 ^ 47"])
    (simp_all add: powr_minus powr_add field_simps)

lemma to_double_pow70: "to_double 1180591620717411303424 = 1180591620717411303424"
  by (rule to_double_exact [where e = 70 and k = "2 ^ 52"]) simp_all

text \<open>
  The double nearest to 0.1 is \<open>3602879701896397 / 2 ^ 55\<close>, a little more than 0.1: the
  exact quotient of 100 by it is a little less than 1000, the double quotient is 1000.
\<close>

lemma to_double_tenth:
  "to_double (100 / (3602879701896397 / 36028797018963968)) = 1000"
proof -
  let ?q = "100 / (3602879701896397 / 36028797018963968) :: real"
  have "to_double ?q = of_int (round_half_even (?q / 2 powr (of_int 9 - 52))) * 2 powr (of_int 9 - 52)"
    by (rule to_double_eval) simp_all
  also have "?q / 2 powr (of_int 9 - 52) = 31691265005705735037417580134400 / 3602879701896397"
    by (simp add: powr_minus field_simps)
  also have "round_half_even (31691265005705735037417580134400 / 3602879701896397) = 8796093022208000"
    by (simp add: round_half_even_def Let_def)
  also have "of_int 8796093022208000 * 2 powr (of_int 9 - 52) = (1000 :: real)"
    by (simp add: powr_minus)
  finally show ?thesis .
qed

lemma py_abs_unit:
  assumes "p = FloatV x \<or> p = IntV n \<and> x = real_of_int n" "- 1 \<le> x" "x \<le> 1"
  shows "py_abs p = \<bar>x\<bar>"
proof -
  consider "p = FloatV x" | "p = IntV n" "x = real_of_int n" using assms(1) by blast
  then show ?thesis
  proof cases
    case 1
    then show ?thesis by (simp add: py_abs_def)
  next
    case 2
    with assms(2,3) have "n = - 1 \<or> n = 0 \<or> n = 1" by auto
    then show ?thesis using 2 by (auto simp: py_abs_def to_double_1 to_double_0)
  qed
qed

lemma pan_row_number:
  assumes "p = FloatV x \<or> p = IntV n \<and> x = real_of_int n" "- 1 \<le> x" "x \<le> 1" "x \<noteq> 0"
    and "fits_long pf (py_int (to_double
           (real_of_int (sint (if x < 0 then snd row else fst row)) / \<bar>x\<bar>)))"
  shows "pan_row pf p row =
           Inr (if x < 0
                then (fst row, word_of_int (py_int (to_double (real_of_int (sint (snd row)) / \<bar>x\<bar>))))
                else (word_of_int (py_int (to_double (real_of_int (sint (fst row)) / \<bar>x\<bar>))), snd row))"
proof -
  have a: "py_abs p = \<bar>x\<bar>" by (rule py_abs_unit [OF assms(1-3)])
  have s: "p \<noteq> StrV ''left''" "p \<noteq> StrV ''right''" using assms(1) by auto
  have neg: "is_negative p \<longleftrightarrow> x < 0" and pos: "is_positive p \<longleftrightarrow> 0 < x"
    using assms(1) by (auto simp: is_negative_def is_positive_def)
  show ?thesis
  proof (cases "x < 0")
    case True
    then show ?thesis
      using assms(4,5) a s neg
      by (simp add: pan_row_def attenuate_def py_floatdiv_def store_int16_def)
  next
    case False
    with assms(4) have "0 < x" by simp
    then show ?thesis
      using assms(4,5) a s neg pos False
      by (simp add: pan_row_def attenuate_def py_floatdiv_def store_int16_def)
  qed
qed

lemma sint_int16:
  fixes v :: int
  assumes "\<bar>v\<bar> \<le> 16383"
  shows "sint (word_of_int v :: 16 word) = v"
proof -
  have "signed_take_bit 15 v = v"
    using assms by (intro signed_take_bit_int_eq_self) simp_all
  then show ?thesis by (simp add: sint_sbintrunc')
qed

lemma synth_loop_cps_zero:
  assumes "0 < slen"
  shows "synth_loop rnd f 0 a d slen [0..<nat slen] l = Inl ZeroDivisionError"
proof -
  have "[0..<nat slen] = 0 # [Suc 0..<nat slen]"
    using assms by (simp add: upt_conv_Cons)
  then show ?thesis
    by (simp add: sample_def phase_of_def py_fmod_def)
qed

lemma synthesize_cps_zero:
  assumes "cps_of sps freq = Inr 0" "0 < sps * len div 1000"
  shows "synthesize sps rnd f freq len attack decay = Inl ZeroDivisionError"
  using assms synth_loop_cps_zero [OF assms(2)] by (simp add: synthesize_def Let_def)

lemma Sound_init_length:
  assumes "cps_of sps freq = Inr cps" "cps \<noteq> 0"
  shows "\<exists>l s. synthesize sps rnd (fst (select_osc osc)) freq len attack decay = Inr l \<and>
               length l = 2 * nat (sps * len div 1000) \<and>
               Sound_init sps rnd osc freq len attack decay = Inr s \<and>
               length (sound s) = nat (sps * len div 1000)"
proof -
  obtain f msgs where sel: "select_osc osc = (f, msgs)" by (cases "select_osc osc")
  from synthesize_total [OF assms] obtain l where
    l: "synthesize sps rnd f freq len attack decay = Inr l" by blast
  from synthesize_Inr [OF l] obtain vs where
    len: "length vs = nat (sps * len div 1000)" and lv: "l = concat (map (\<lambda>v. [v, v]) vs)"
    by blast
  have ll: "length l = 2 * nat (sps * len div 1000)"
    unfolding lv using len by (simp add: length_concat comp_def sum_list_triv)
  have "reshape2 l = Inr (map (\<lambda>v. (word_of_int v, word_of_int v)) vs)"
    unfolding lv by (rule reshape2_twice)
  then have "Sound_init sps rnd osc freq len attack decay
               = Inr \<lparr>sound = map (\<lambda>v. (word_of_int v, word_of_int v)) vs, printed = msgs\<rparr>"
    using sel l by (simp add: Sound_init_def)
  then show ?thesis using sel l ll len by simp
qed

lemma cps_float_exact: "x \<noteq> 0 \<Longrightarrow> cps_of sps (FloatV x) = Inr (real_of_int sps / x)"
  by simp

lemma synth_example_attack:
  "synthesize 1000 no_draws Square (FloatV 1) 2 1 0 = Inr [0, 0, 16383, 16383]"
  by (simp add: synthesize_def upt_conv_Cons sample_def phase_of_def py_fmod_def flmod_def
      py_truediv_def osc_value_def square_def amp_def attack_env_def decay_env_def py_int_def)

lemma synth_example_square:
  "synthesize 2 no_draws Square (FloatV 1) 1000 0 0 = Inr [16383, 16383, - 16383, - 16383]"
  by (simp add: synthesize_def upt_conv_Cons sample_def phase_of_def py_fmod_def flmod_def
      py_truediv_def osc_value_def square_def amp_def attack_env_def decay_env_def)

lemma zero_envelope_skipped:
  assumes "attack * sps div 1000 = 0 \<or> decay * sps div 1000 = 0"
    and "cps_of sps freq = Inr cps" and "cps \<noteq> 0"
  shows "(attack * sps div 1000 = 0 \<longrightarrow>
            (\<forall>k v. attack_env v (int k) (attack * sps div 1000) = Inr v))
       \<and> (decay * sps div 1000 = 0 \<longrightarrow>
            (\<forall>k v. int k < sps * len div 1000 \<longrightarrow>
               decay_env v (int k) (sps * len div 1000) (decay * sps div 1000) = Inr v))
       \<and> (\<exists>l. synthesize sps rnd f freq len attack decay = Inr l
              \<and> length l = 2 * nat (sps * len div 1000))"
proof (intro conjI impI allI)
  fix k v
  assume "attack * sps div 1000 = 0"
  then show "attack_env v (int k) (attack * sps div 1000) = Inr v"
    by (simp add: attack_env_def)
next
  fix k v
  assume "decay * sps div 1000 = 0" and "int k < sps * len div 1000"
  then show "decay_env v (int k) (sps * len div 1000) (decay * sps div 1000) = Inr v"
    by (simp add: decay_env_def)
next
  from synthesize_total [OF assms(2,3)] obtain l where
    l: "synthesize sps rnd f freq len attack decay = Inr l" by blast
  from synthesize_Inr [OF l] obtain vs where
    "length vs = nat (sps * len div 1000)" and "l = concat (map (\<lambda>v. [v, v]) vs)"
    by blast
  then have "length l = 2 * nat (sps * len div 1000)"
    by (simp add: length_concat comp_def sum_list_triv)
  with l show "\<exists>l. synthesize sps rnd f freq len attack decay = Inr l
                 \<and> length l = 2 * nat (sps * len div 1000)"
    by blast
qed

section \<open>The claims\<close>

text \<open>
  Claim C1 (length of the generated sequence). The claim promises, for every positive
  frequency, a sequence of \<open>sps * len div 1000\<close> samples. An integer frequency above the
  sampling frequency is positive, yet line 99 divides the two integers first, the quotient is
  0, and \<^verbatim>\<open>i % cps\<close> raises at the first sample: no sequence is produced. (Where
  \<open>cps\<close> is not 0 the length is as claimed: \<open>Sound_init_length\<close>.)
\<close>

theorem init_int_freq_above_rate:
  "Sound_init 44100 rnd ''sine'' (IntV 50000) 1000 0 0 = Inl ZeroDivisionError"
proof -
  have "synthesize 44100 rnd Sine (IntV 50000) 1000 0 0 = Inl ZeroDivisionError"
    by (rule synthesize_cps_zero) simp_all
  then show ?thesis by (simp add: Sound_init_def select_osc_def)
qed

text \<open>
  Claim C2 as stated (frequency 0 is rejected with a dedicated error instead of the
  division fault) fails: the result at this input is the division fault itself.
\<close>

theorem init_zero_frequency_counterexample:
  "Sound_init 44100 no_draws ''sine'' (IntV 0) 1000 0 0 = Inl ZeroDivisionError"
  by (simp add: Sound_init_def synthesize_def select_osc_def)

text \<open>
  Claim C2, as amended: with a frequency of 0, integer or float, the division of line 99
  raises \<^verbatim>\<open>ZeroDivisionError\<close>, whatever the other arguments, and no sound is made.
\<close>

theorem init_zero_frequency:
  "Sound_init sps rnd osc (IntV 0) len attack decay = Inl ZeroDivisionError \<and>
   Sound_init sps rnd osc (FloatV 0) len attack decay = Inl ZeroDivisionError"
  by (simp add: Sound_init_def synthesize_def split: prod.splits)

text \<open>
  Claim C3 (a number outside [-1, 1] is refused and the buffer kept). The check of line 181
  looks at the type only: panning 2.0 halves the left channel and prints nothing.
\<close>

theorem pan_out_of_range:
  "pan pf \<lparr>sound = [(100, 100)], printed = []\<rparr> (FloatV 2)
     = Inr (None, \<lparr>sound = [(50, 100)], printed = []\<rparr>)"
proof -
  have "fits_long pf 50" by (rule fits_long_int16) simp_all
  then show ?thesis
    by (simp add: pan_def is_number_def is_zero_def pan_row_def is_negative_def is_positive_def
        attenuate_def py_floatdiv_def py_abs_def store_int16_def to_double_50 py_int_def)
qed

text \<open>
  Claim C4 (cycles per sample is the exact quotient). For the integer frequency 440 at
  44100 samples per second the code computes 100, the truncated quotient, and not
  44100 / 440. (For a float frequency the quotient is exact: \<open>cps_float_exact\<close>.)
\<close>

theorem cps_int_truncated:
  "cps_of 44100 (IntV 440) = Inr 100 \<and> (100 :: real) \<noteq> 44100 / 440"
  by simp

text \<open>
  Claim C8: panning with 0 (integer or float) returns at once; the object, and so its
  buffer, is what it was.
\<close>

theorem pan_zero_identity:
  "pan pf self (IntV 0) = Inr (None, self) \<and> pan pf self (FloatV 0) = Inr (None, self)"
proof -
  have "fits_long pf 0" by (rule fits_long_int16) simp_all
  then show ?thesis by (simp add: pan_def is_number_def is_zero_def)
qed

text \<open>
  Claim C9: panning with \<^verbatim>\<open>'left'\<close> sets the right value of every row to 0 and keeps
  the left value.
\<close>

theorem pan_left:
  "pan pf self (StrV ''left'') =
     Inr (None, self\<lparr>sound := map (\<lambda>(l, r). (l, 0)) (sound self)\<rparr>)"
proof -
  have "pan_loop pf (StrV ''left'') [0..<length (sound self)] (sound self)
          = Inr (map (\<lambda>row. (fst row, 0)) (sound self))"
    by (rule pan_loop_map) (rule pan_row_left)
  moreover have "(\<lambda>row :: 16 word \<times> 16 word. (fst row, 0 :: 16 word)) = (\<lambda>(l, r). (l, 0))"
    by (simp add: fun_eq_iff)
  ultimately show ?thesis
    by (simp add: pan_def is_number_def is_zero_def)
qed

text \<open>
  Claim C5 as stated fails twice. The method does not return the buffer: the value returned
  is \<^verbatim>\<open>None\<close>, as the docstring of \<^verbatim>\<open>pan\<close> says. And it does not return at all when a
  quotient is too large to be stored: panning by \<open>1 / 2 ^ 70\<close>, a value in [-1, 1], divides
  the sample 1 to \<open>2 ^ 70\<close>, and the store raises \<^verbatim>\<open>OverflowError\<close>.
\<close>

theorem pan_returns_buffer_counterexample:
  "pan Long64 \<lparr>sound = [(1, 1)], printed = []\<rparr> (StrV ''left'')
     = Inr (None, \<lparr>sound = [(1, 0)], printed = []\<rparr>)
   \<and> (None :: stereo option) \<noteq> Some [(1, 0)]
   \<and> pan Long64 \<lparr>sound = [(1, 1)], printed = []\<rparr> (FloatV (1 / 2 ^ 70)) = Inl OverflowError"
proof -
  have "pan Long64 \<lparr>sound = [(1, 1)], printed = []\<rparr> (StrV ''left'')
          = Inr (None, \<lparr>sound = [(1, 0)], printed = []\<rparr>)"
    by (simp add: pan_def is_number_def is_zero_def pan_row_def)
  moreover have "pan Long64 \<lparr>sound = [(1, 1)], printed = []\<rparr> (FloatV (1 / 2 ^ 70))
                   = Inl OverflowError"
    by (simp add: pan_def is_number_def is_zero_def pan_row_def is_negative_def is_positive_def
        attenuate_def py_floatdiv_def py_abs_def store_int16_def to_double_pow70 py_int_def
        fits_long_def long_bits_def)
  ultimately show ?thesis by simp
qed

text \<open>
  Claim C5, as amended: for every buffer and every valid panning argument
  (\<^verbatim>\<open>'left'\<close>, \<^verbatim>\<open>'right'\<close>, or an integer or float in [-1, 1]) whose quotients all fit
  a C long, the method returns \<^verbatim>\<open>None\<close> and the object then holds the panned buffer. For
  a negative number every right value, for a positive number every left value, is its
  amplitude divided by the absolute value of the number (a division of doubles), truncated
  towards zero and stored as a 16-bit integer; 0 changes nothing; \<^verbatim>\<open>'left'\<close> and
  \<^verbatim>\<open>'right'\<close> set the other channel to 0.
\<close>

theorem pan_returns_None:
  assumes "p = FloatV x \<or> p = IntV n \<and> x = real_of_int n"
    and "- 1 \<le> x" and "x \<le> 1"
    and "\<forall>row\<in>set (sound self). fits_long pf (py_int (to_double
           (real_of_int (sint (if x < 0 then snd row else fst row)) / \<bar>x\<bar>)))"
  shows "pan pf self p =
           Inr (None,
                if x = 0 then self
                else self\<lparr>sound :=
                  map (\<lambda>(l, r).
                         if x < 0
                         then (l, word_of_int (py_int (to_double (real_of_int (sint r) / \<bar>x\<bar>))))
                         else (word_of_int (py_int (to_double (real_of_int (sint l) / \<bar>x\<bar>))), r))
                      (sound self)\<rparr>)
       \<and> pan pf self (StrV ''left'') = Inr (None, self\<lparr>sound := map (\<lambda>(l, r). (l, 0)) (sound self)\<rparr>)
       \<and> pan pf self (StrV ''right'') = Inr (None, self\<lparr>sound := map (\<lambda>(l, r). (0, r)) (sound self)\<rparr>)"
proof (intro conjI)
  let ?g = "\<lambda>row :: 16 word \<times> 16 word.
              if x < 0
              then (fst row, word_of_int (py_int (to_double (real_of_int (sint (snd row)) / \<bar>x\<bar>))))
              else (word_of_int (py_int (to_double (real_of_int (sint (fst row)) / \<bar>x\<bar>))), snd row)"
  have "p = FloatV x \<or> (n = - 1 \<or> n = 0 \<or> n = 1) \<and> p = IntV n"
    using assms(1-3) by auto
  moreover have "fits_long pf (- 1)" "fits_long pf 0" "fits_long pf 1"
    by (rule fits_long_int16; simp)+
  ultimately have num: "is_number pf p"
    by (auto simp: is_number_def)
  have z: "is_zero p \<longleftrightarrow> x = 0"
    using assms(1) by (auto simp: is_zero_def)
  have g: "?g = (\<lambda>(l, r).
                   if x < 0
                   then (l, word_of_int (py_int (to_double (real_of_int (sint r) / \<bar>x\<bar>))))
                   else (word_of_int (py_int (to_double (real_of_int (sint l) / \<bar>x\<bar>))), r))"
    by (simp add: fun_eq_iff)
  show "pan pf self p =
           Inr (None,
                if x = 0 then self
                else self\<lparr>sound :=
                  map (\<lambda>(l, r).
                         if x < 0
                         then (l, word_of_int (py_int (to_double (real_of_int (sint r) / \<bar>x\<bar>))))
                         else (word_of_int (py_int (to_double (real_of_int (sint l) / \<bar>x\<bar>))), r))
                      (sound self)\<rparr>)"
  proof (cases "x = 0")
    case True
    then show ?thesis using num z by (simp add: pan_def)
  next
    case False
    have "pan_loop pf p [0..<length (sound self)] (sound self) = Inr (map ?g (sound self))"
    proof (rule pan_loop_map)
      fix row assume "row \<in> set (sound self)"
      with assms(4) have "fits_long pf (py_int (to_double
           (real_of_int (sint (if x < 0 then snd row else fst row)) / \<bar>x\<bar>)))"
        by blast
      then show "pan_row pf p row = Inr (?g row)"
        by (rule pan_row_number [OF assms(1-3) False])
    qed
    then show ?thesis using False num z unfolding g by (simp add: pan_def)
  qed
next
  have "pan_loop pf (StrV ''left'') [0..<length (sound self)] (sound self)
          = Inr (map (\<lambda>row. (fst row, 0)) (sound self))"
    by (rule pan_loop_map) (rule pan_row_left)
  moreover have "(\<lambda>row :: 16 word \<times> 16 word. (fst row, 0 :: 16 word)) = (\<lambda>(l, r). (l, 0))"
    by (simp add: fun_eq_iff)
  ultimately show "pan pf self (StrV ''left'') = Inr (None, self\<lparr>sound := map (\<lambda>(l, r). (l, 0)) (sound self)\<rparr>)"
    by (simp add: pan_def is_number_def is_zero_def)
next
  have "pan_loop pf (StrV ''right'') [0..<length (sound self)] (sound self)
          = Inr (map (\<lambda>row. (0, snd row)) (sound self))"
    by (rule pan_loop_map) (rule pan_row_right)
  moreover have "(\<lambda>row :: 16 word \<times> 16 word. (0 :: 16 word, snd row)) = (\<lambda>(l, r). (0, r))"
    by (simp add: fun_eq_iff)
  ultimately show "pan pf self (StrV ''right'') = Inr (None, self\<lparr>sound := map (\<lambda>(l, r). (0, r)) (sound self)\<rparr>)"
    by (simp add: pan_def is_number_def is_zero_def)
qed

text \<open>
  Panning by the double nearest to 0.1 a buffer of one row: the left value 100 becomes
  1000, the quotient of the doubles, where the exact quotient would truncate to 999.
\<close>

theorem pan_returns_None_witness:
  "(- 1 :: real) \<le> 3602879701896397 / 36028797018963968
   \<and> (3602879701896397 / 36028797018963968 :: real) \<le> 1
   \<and> fits_long Long64 1000
   \<and> pan Long64 \<lparr>sound = [(100, 100)], printed = []\<rparr>
         (FloatV (3602879701896397 / 36028797018963968))
       = Inr (None, \<lparr>sound = [(1000, 100)], printed = []\<rparr>)"
proof -
  let ?x = "3602879701896397 / 36028797018963968 :: real"
  let ?self = "\<lparr>sound = [(100, 100 :: 16 word)], printed = []\<rparr>"
  have h1: "FloatV ?x = FloatV ?x \<or> FloatV ?x = IntV 0 \<and> ?x = real_of_int 0" by simp
  have h2: "- 1 \<le> ?x" by simp
  have h3: "?x \<le> 1" by simp
  have f: "fits_long Long64 1000" by (rule fits_long_int16) simp_all
  have q: "py_int (to_double (real_of_int (sint (100 :: 16 word)) / \<bar>?x\<bar>)) = 1000"
    using to_double_tenth by (simp add: py_int_def)
  have h4: "\<forall>row\<in>set (sound ?self). fits_long Long64 (py_int (to_double
           (real_of_int (sint (if ?x < 0 then snd row else fst row)) / \<bar>?x\<bar>)))"
    using f q by simp
  from pan_returns_None [OF h1 h2 h3 h4] q
  have "pan Long64 ?self (FloatV ?x) = Inr (None, \<lparr>sound = [(1000, 100)], printed = []\<rparr>)"
    by simp
  with h2 h3 f show ?thesis by blast
qed

text \<open>
  Claim C6 as stated (every value of the square sequence is \<open>amp\<close> or \<open>- amp\<close>) fails
  where the envelope applies: with an attack of one sample the first value is 0.
\<close>

theorem square_envelope_counterexample:
  "synthesize 1000 no_draws Square (FloatV 1) 2 1 0 = Inr [0, 0, 16383, 16383]
   \<and> (0 :: int) \<noteq> 16383 \<and> (0 :: int) \<noteq> - 16383"
  by (simp add: synthesize_def upt_conv_Cons sample_def phase_of_def py_fmod_def flmod_def
      py_truediv_def osc_value_def square_def amp_def attack_env_def decay_env_def py_int_def)

text \<open>
  Claim C6, as amended: for the square oscillator, every value of the generated sequence at
  a sample index that is neither in the attack ramp (\<open>i < attack\<close>) nor in the decay ramp
  (\<open>i > slen - decay\<close>) is exactly 16383 or -16383. Entry \<open>j\<close> of the interleaved list
  belongs to sample \<open>j div 2\<close>.
\<close>

theorem square_outside_envelope:
  assumes "synthesize sps rnd Square freq len attack decay = Inr l"
    and "j < length l"
    and "attack * sps div 1000 \<le> int (j div 2)"
    and "int (j div 2) \<le> sps * len div 1000 - decay * sps div 1000"
  shows "l ! j = 16383 \<or> l ! j = - 16383"
proof -
  from synthesize_Inr [OF assms(1)] obtain cps vs where
    len: "length vs = nat (sps * len div 1000)" and lv: "l = concat (map (\<lambda>v. [v, v]) vs)"
    and smp: "\<forall>k < length vs. sample rnd Square cps (attack * sps div 1000) (decay * sps div 1000)
                               (sps * len div 1000) k = Inr (vs ! k)"
    by blast
  have ll: "length l = 2 * length vs"
    unfolding lv by (simp add: length_concat comp_def sum_list_triv)
  then have j: "j < 2 * length vs" using assms(2) by simp
  then have k: "j div 2 < length vs" by simp
  have nth: "l ! j = vs ! (j div 2)" unfolding lv by (rule nth_twice [OF j])
  from smp k have s: "sample rnd Square cps (attack * sps div 1000) (decay * sps div 1000)
                        (sps * len div 1000) (j div 2) = Inr (vs ! (j div 2))"
    by simp
  then obtain p where "osc_value rnd Square (j div 2) p = vs ! (j div 2)"
    using assms(3,4)
    by (auto simp: sample_def attack_env_def decay_env_def split: sum.splits)
  then have "vs ! (j div 2) = amp * square p" by (simp add: osc_value_def)
  then show ?thesis using nth by (simp add: amp_value square_def)
qed

text \<open>The third entry (sample 1) of the sequence above is outside the attack ramp.\<close>

theorem square_outside_envelope_witness:
  "synthesize 1000 no_draws Square (FloatV 1) 2 1 0 = Inr [0, 0, 16383, 16383]
   \<and> (2 :: nat) < length [0, 0, 16383, 16383 :: int]
   \<and> (1 :: int) * 1000 div 1000 \<le> int (2 div 2)
   \<and> int (2 div 2) \<le> 1000 * 2 div 1000 - 0 * 1000 div 1000
   \<and> ([0, 0, 16383, 16383 :: int] ! 2 = 16383 \<or> [0, 0, 16383, 16383 :: int] ! 2 = - 16383)"
proof -
  have h1: "synthesize 1000 no_draws Square (FloatV 1) 2 1 0 = Inr [0, 0, 16383, 16383]"
    by (rule synth_example_attack)
  have h2: "(2 :: nat) < length [0, 0, 16383, 16383 :: int]" by simp
  have h3: "(1 :: int) * 1000 div 1000 \<le> int (2 div 2)" by simp
  have h4: "int (2 div 2) \<le> 1000 * 2 div 1000 - 0 * 1000 div 1000" by simp
  from square_outside_envelope [OF h1 h2 h3 h4] h1 h2 h3 h4 show ?thesis by blast
qed

text \<open>
  Claim C7 (with no attack or decay samples the envelope is skipped, nothing divides by
  zero and the generation returns). The envelope branches are skipped, as claimed, but with
  the integer frequency 48000 at 44100 samples per second line 99 gives \<open>cps = 0\<close> and
  \<^verbatim>\<open>i % cps\<close> of line 103 raises \<^verbatim>\<open>ZeroDivisionError\<close> at the first sample, also
  with an attack and a decay of 0. (Where \<open>cps\<close> is not 0 the claim holds:
  \<open>zero_envelope_skipped\<close>.)
\<close>

theorem zero_envelope_int_freq_above_rate:
  "(0 :: int) * 44100 div 1000 = 0
   \<and> attack_env v (int k) (0 * 44100 div 1000) = Inr v
   \<and> Sound_init 44100 rnd ''square'' (IntV 48000) 500 0 0 = Inl ZeroDivisionError"
proof -
  have "synthesize 44100 rnd Square (IntV 48000) 500 0 0 = Inl ZeroDivisionError"
    by (rule synthesize_cps_zero) simp_all
  then show ?thesis by (simp add: Sound_init_def select_osc_def attack_env_def)
qed

text \<open>
  Claim C10: whatever the oscillator and the envelope, every value of the generated list is
  at most 16383 in absolute value, so that it is unchanged when stored as a 16-bit signed
  integer. The draws of the random source are in [0, 1), as \<^verbatim>\<open>random.random()\<close>
  promises.
\<close>

theorem samples_within_int16:
  assumes "\<forall>k. 0 \<le> rnd k \<and> rnd k < 1"
    and "synthesize sps rnd f freq len attack decay = Inr l"
  shows "\<forall>v\<in>set l. \<bar>v\<bar> \<le> 16383 \<and> sint (word_of_int v :: 16 word) = v"
proof
  fix v assume v: "v \<in> set l"
  from synthesize_Inr [OF assms(2)] obtain cps vs where
    len: "length vs = nat (sps * len div 1000)" and lv: "l = concat (map (\<lambda>v. [v, v]) vs)"
    and smp: "\<forall>k < length vs. sample rnd f cps (attack * sps div 1000) (decay * sps div 1000)
                               (sps * len div 1000) k = Inr (vs ! k)"
    by blast
  from v lv have "v \<in> set vs" by auto
  then obtain k where k: "k < length vs" and vk: "vs ! k = v"
    by (auto simp: in_set_conv_nth)
  have "int k < sps * len div 1000" using k len by linarith
  moreover have "sample rnd f cps (attack * sps div 1000) (decay * sps div 1000)
                   (sps * len div 1000) k = Inr v"
    using smp k vk by simp
  ultimately have b: "\<bar>v\<bar> \<le> 16383"
    using assms(1) sample_bound [of rnd k] by blast
  then show "\<bar>v\<bar> \<le> 16383 \<and> sint (word_of_int v :: 16 word) = v"
    by (simp add: sint_int16)
qed

text \<open>Two samples of a square wave, drawn from a source whose draws are all 0.\<close>

theorem samples_within_int16_witness:
  "(\<forall>k. 0 \<le> no_draws k \<and> no_draws k < 1)
   \<and> synthesize 2 no_draws Square (FloatV 1) 1000 0 0 = Inr [16383, 16383, - 16383, - 16383]
   \<and> \<bar>- 16383 :: int\<bar> \<le> 16383
   \<and> sint (word_of_int (- 16383) :: 16 word) = - 16383"
proof -
  have h1: "\<forall>k. 0 \<le> no_draws k \<and> no_draws k < 1" by (simp add: no_draws_def)
  have h2: "synthesize 2 no_draws Square (FloatV 1) 1000 0 0 = Inr [16383, 16383, - 16383, - 16383]"
    by (rule synth_example_square)
  have "- 16383 \<in> set [16383, 16383, - 16383, - 16383 :: int]" by simp
  with samples_within_int16 [OF h1 h2]
  have "\<bar>- 16383 :: int\<bar> \<le> 16383 \<and> sint (word_of_int (- 16383) :: 16 word) = - 16383"
    by (rule bspec)
  with h1 h2 show ?thesis by blast
qed

end
